theory Spec2Isabelle
  imports Main
begin

section \<open>Strings as the CSV import sees them\<close>

text \<open>
  A JavaScript string is modelled as a \<^typ>\<open>string\<close> whose characters are the code units
  U+0000 .. U+00FF. \<open>String.prototype.trim\<close> removes white space and line terminators
  at both ends; in that range these are TAB, LF, VT, FF, CR, SPACE and NBSP.
\<close>

abbreviation dquote :: char where
  "dquote \<equiv> CHR 0x22"

abbreviation newline :: char where
  "newline \<equiv> CHR 0x0A"

definition is_js_space :: "char \<Rightarrow> bool" where
  "is_js_space c \<longleftrightarrow>
     c = CHR 0x09 \<or> c = CHR 0x0A \<or> c = CHR 0x0B \<or> c = CHR 0x0C \<or> c = CHR 0x0D
     \<or> c = CHR 0x20 \<or> c = CHR 0xA0"

definition trim :: "string \<Rightarrow> string" where
  "trim s = rev (dropWhile is_js_space (rev (dropWhile is_js_space s)))"

text \<open>
  \<open>s.split(c)\<close> for a one-character separator: the pieces between the separators,
  empty pieces kept, so the result is never empty (\<open>''.split(c)\<close> is \<open>['']\<close>) and the
  second branch of the case below is never taken.
\<close>

fun split_on :: "char \<Rightarrow> string \<Rightarrow> string list" where
  "split_on c [] = [[]]"
| "split_on c (x # xs) =
     (if x = c then [] # split_on c xs
      else (case split_on c xs of
              p # ps \<Rightarrow> (x # p) # ps
            | [] \<Rightarrow> [[x]]))"

text \<open>\<open>toLowerCase\<close> on the modelled range: A-Z, and the Latin-1 capitals except U+00D7.\<close>

definition lower_char :: "char \<Rightarrow> char" where
  "lower_char c =
     (let n = (of_char c :: nat)
      in if (65 \<le> n \<and> n \<le> 90) \<or> (192 \<le> n \<and> n \<le> 222 \<and> n \<noteq> 215)
         then char_of (n + 32) else c)"

definition toLowerCase :: "string \<Rightarrow> string" where
  "toLowerCase s = map lower_char s"

section \<open>parseCSV\<close>

text \<open>
  The five properties of a row object, prefixed with \<open>csv_\<close> because three of them share
  their names with properties of a question.
\<close>

record CsvRow =
  csv_question :: string
  csv_question_type :: string
  csv_answers :: string
  csv_correct_answers :: string
  csv_category :: string

text \<open>
  The inner loop of \<open>parseCSV\<close> over the characters of one trimmed line, with its three
  variables \<open>inQuote\<close>, \<open>buffer\<close> and \<open>matches\<close>; the final \<open>matches.push(buffer)\<close> is the
  base case.
\<close>

fun scan_line :: "string \<Rightarrow> bool \<Rightarrow> string \<Rightarrow> string list \<Rightarrow> string list" where
  "scan_line [] inQuote buffer matches = matches @ [buffer]"
| "scan_line (ch # rest) inQuote buffer matches =
     (if ch = dquote then scan_line rest (\<not> inQuote) buffer matches
      else if ch = CHR '','' \<and> \<not> inQuote then scan_line rest inQuote [] (matches @ [buffer])
      else scan_line rest inQuote (buffer @ [ch]) matches)"

text \<open>\<open>.replace(/^"|"$/g, '')\<close>: one quote off the front, then one off the end of what is left.\<close>

definition strip_quotes :: "string \<Rightarrow> string" where
  "strip_quotes s =
     (let s1 = (case s of [] \<Rightarrow> [] | c # cs \<Rightarrow> if c = dquote then cs else s)
      in if s1 \<noteq> [] \<and> last s1 = dquote then butlast s1 else s1)"

text \<open>\<open>.replace(/""/g, '"')\<close>: left to right, non-overlapping.\<close>

fun unescape_quotes :: "string \<Rightarrow> string" where
  "unescape_quotes (a # b # rest) =
     (if a = dquote \<and> b = dquote then dquote # unescape_quotes rest
      else a # unescape_quotes (b # rest))"
| "unescape_quotes s = s"

definition clean_field :: "string \<Rightarrow> string" where
  "clean_field m = trim (unescape_quotes (strip_quotes (trim m)))"

text \<open>The \<open>values\<close> array computed for one trimmed, non-blank line.\<close>

definition line_values :: "string \<Rightarrow> string list" where
  "line_values currentLine = map clean_field (scan_line currentLine False [] [])"

text \<open>One iteration of the outer loop: \<open>None\<close> when nothing is pushed to \<open>result\<close>.\<close>

definition parse_line :: "string \<Rightarrow> CsvRow option" where
  "parse_line line =
     (let currentLine = trim line
      in if currentLine = [] then None
         else let values = line_values currentLine
              in if length values \<ge> 5
                 then Some \<lparr>csv_question = values ! 0, csv_question_type = values ! 1,
                             csv_answers = values ! 2, csv_correct_answers = values ! 3,
                             csv_category = values ! 4\<rparr>
                 else None)"

fun parse_lines :: "string list \<Rightarrow> CsvRow list" where
  "parse_lines [] = []"
| "parse_lines (l # ls) =
     (case parse_line l of None \<Rightarrow> parse_lines ls | Some row \<Rightarrow> row # parse_lines ls)"

text \<open>The loop starts at index 1: the first line is skipped whatever it holds.\<close>

definition parseCSV :: "string \<Rightarrow> CsvRow list" where
  "parseCSV text = parse_lines (tl (split_on newline text))"

section \<open>handleFileUpload\<close>

datatype QuestionType = single_choice | multiple_choice

text \<open>
  The value stored as the category of a question: a string, or, for a key that the table
  does not own but every plain object inherits from \<open>Object.prototype\<close>, the inherited
  value (a function, or the prototype itself for \<open>__proto__\<close>), named by its key.
\<close>

datatype CategoryValue = Label string | Inherited string

text \<open>A question without an id, as the import builds it and hands it to the storage service.\<close>

record Candidate =
  question_text :: string
  question_type :: QuestionType
  all_answers :: "string list"
  correct_answers :: "string list"
  category :: CategoryValue

definition CATEGORY_MAP :: "string \<rightharpoonup> string" where
  "CATEGORY_MAP =
     [''Koalatest'' \<mapsto> ''Hundef'' @ [CHR 0xFC] @ ''hrerschein'',
      ''Hundetrainer Testfragen'' \<mapsto> ''Trainerpr'' @ [CHR 0xFC] @ ''fung'']"

definition prototype_keys :: "string list" where
  "prototype_keys =
     [''constructor'', ''hasOwnProperty'', ''isPrototypeOf'', ''propertyIsEnumerable'',
      ''toLocaleString'', ''toString'', ''valueOf'', ''__proto__'',
      ''__defineGetter__'', ''__defineSetter__'', ''__lookupGetter__'', ''__lookupSetter__'']"

text \<open>
  \<open>CATEGORY_MAP[category] || category\<close>: an own key gives its entry, an inherited key gives
  the inherited value, which is truthy, and any other key gives \<open>undefined\<close>, so that the
  category itself is kept.
\<close>

definition map_category :: "string \<Rightarrow> CategoryValue" where
  "map_category c =
     (case CATEGORY_MAP c of
        Some c' \<Rightarrow> Label c'
      | None \<Rightarrow> if c \<in> set prototype_keys then Inherited c else Label c)"

text \<open>\<open>s.split(';').map(s => s.trim()).filter(Boolean)\<close>\<close>

definition split_list :: "string \<Rightarrow> string list" where
  "split_list s = filter (\<lambda>t. t \<noteq> []) (map trim (split_on CHR '';'' s))"

definition normalize_type :: "string \<Rightarrow> string" where
  "normalize_type raw =
     (let qType = trim raw;
          qType = (if toLowerCase qType = ''single choice'' then ''single_choice'' else qType);
          qType = (if toLowerCase qType = ''multiple choice'' then ''multiple_choice'' else qType)
      in qType)"

text \<open>The callback of \<open>rows.map\<close>: \<open>None\<close> is the \<open>null\<close> of a row with an invalid type.\<close>

definition row_to_question :: "CsvRow \<Rightarrow> Candidate option" where
  "row_to_question row =
     (let qType = normalize_type (csv_question_type row)
      in if qType \<noteq> ''single_choice'' \<and> qType \<noteq> ''multiple_choice'' then None
         else Some \<lparr>question_text = csv_question row,
                     question_type =
                       (if qType = ''single_choice'' then single_choice else multiple_choice),
                     all_answers = split_list (csv_answers row),
                     correct_answers = split_list (csv_correct_answers row),
                     category = map_category (trim (csv_category row))\<rparr>)"

text \<open>The predicate of the \<open>.filter\<close> that follows the map.\<close>

fun keep :: "Candidate option \<Rightarrow> bool" where
  "keep None = False"
| "keep (Some q) = (question_text q \<noteq> [] \<and> length (all_answers q) > 0)"

definition skippedCount :: "CsvRow list \<Rightarrow> nat" where
  "skippedCount rows = length (filter (\<lambda>r. row_to_question r = None) rows)"

definition questionsToInsert :: "CsvRow list \<Rightarrow> Candidate list" where
  "questionsToInsert rows = map the (filter keep (map row_to_question rows))"

datatype import_error = EmptyBatchError string

datatype outcome = NoText | Imported "Candidate list" nat

text \<open>
  The body of \<open>reader.onload\<close> up to the call of \<open>bulkInsertQuestions\<close>: \<open>NoText\<close> is the
  early \<open>return\<close> on an empty text, \<open>Inl\<close> the \<open>throw\<close>, and \<open>Imported qs n\<close> the batch
  handed to the storage service with the skip count of the success message.
\<close>

definition ingest :: "string \<Rightarrow> import_error + outcome" where
  "ingest text =
     (if text = [] then Inr NoText
      else let rows = parseCSV text;
               qs = questionsToInsert rows;
               n = skippedCount rows
           in if length qs = 0
              then Inl (EmptyBatchError
                     (if n > 0 then ''All rows were skipped due to errors.''
                      else ''No valid questions found.''))
              else Inr (Imported qs n))"

section \<open>QuizGame\<close>

text \<open>A stored question is a candidate with the id the storage service gave it.\<close>

record 'id Question = Candidate +
  qid :: 'id

type_synonym 'id UserAnswers = "'id \<rightharpoonup> string list"

text \<open>
  The component: its props \<open>questions\<close> and \<open>timeLimit\<close>, its four state variables, and two
  fields for what lives outside them. \<open>timer\<close> is the interval of the timer effect:
  \<open>None\<close> when no interval is set, \<open>Some a\<close> when one is set whose callback closed over the
  answer map \<open>a\<close>. \<open>emitted\<close> lists the arguments of the calls of \<open>onFinish\<close>, oldest first.
\<close>

record 'id QuizGame =
  questions :: "'id Question list"
  timeLimit :: int
  currentIdx :: int
  answers :: "'id UserAnswers"
  showConfirmModal :: bool
  timeLeft :: int
  timer :: "'id UserAnswers option"
  emitted :: "'id UserAnswers list"

text \<open>The timer effect, run for the answer map \<open>a\<close>: it sets no interval unless the limit is positive.\<close>

definition timer_effect :: "int \<Rightarrow> 'id UserAnswers \<Rightarrow> 'id UserAnswers option" where
  "timer_effect limit a = (if limit \<le> 0 then None else Some a)"

definition init :: "'id Question list \<Rightarrow> int \<Rightarrow> 'id QuizGame" where
  "init qs limit =
     \<lparr>questions = qs, timeLimit = limit, currentIdx = 0, answers = Map.empty,
      showConfirmModal = False, timeLeft = limit,
      timer = timer_effect limit Map.empty, emitted = []\<rparr>"

text \<open>\<open>questions[currentIdx]\<close>: \<open>None\<close> is \<open>undefined\<close>.\<close>

definition currentQuestion :: "'id QuizGame \<Rightarrow> 'id Question option" where
  "currentQuestion s =
     (if 0 \<le> currentIdx s \<and> currentIdx s < int (length (questions s))
      then Some (questions s ! nat (currentIdx s)) else None)"

definition isLastQuestion :: "'id QuizGame \<Rightarrow> bool" where
  "isLastQuestion s \<longleftrightarrow> currentIdx s = int (length (questions s)) - 1"

text \<open>\<open>answers[i] || []\<close>\<close>

definition selected :: "'id QuizGame \<Rightarrow> 'id \<Rightarrow> string list" where
  "selected s i = (case answers s i of None \<Rightarrow> [] | Some sel \<Rightarrow> sel)"

definition isAllAnswered :: "'id QuizGame \<Rightarrow> bool" where
  "isAllAnswered s \<longleftrightarrow> list_all (\<lambda>q. length (selected s (qid q)) > 0) (questions s)"

text \<open>
  \<open>handleOptionToggle\<close>. Reading \<open>currentQuestion.id\<close> of \<open>undefined\<close> throws: that is \<open>None\<close>.
  \<open>setAnswers\<close> stores a new object, so the timer effect runs again: its cleanup clears the
  old interval and, with a positive limit, a new one closes over the new answers.
\<close>

definition handleOptionToggle :: "string \<Rightarrow> 'id QuizGame \<Rightarrow> 'id QuizGame option" where
  "handleOptionToggle option s =
     (case currentQuestion s of
        None \<Rightarrow> None
      | Some q \<Rightarrow>
          let currentSelected = selected s (qid q);
              newSelected =
                (if question_type q = single_choice then [option]
                 else if option \<in> set currentSelected
                      then filter (\<lambda>item. item \<noteq> option) currentSelected
                      else currentSelected @ [option]);
              answers' = (answers s)(qid q \<mapsto> newSelected)
          in Some (s\<lparr>answers := answers', timer := timer_effect (timeLimit s) answers'\<rparr>))"

definition goPrevious :: "'id QuizGame \<Rightarrow> 'id QuizGame" where
  "goPrevious s = s\<lparr>currentIdx := max 0 (currentIdx s - 1)\<rparr>"

definition goNext :: "'id QuizGame \<Rightarrow> 'id QuizGame" where
  "goNext s = s\<lparr>currentIdx := min (int (length (questions s)) - 1) (currentIdx s + 1)\<rparr>"

definition handleFinishClick :: "'id QuizGame \<Rightarrow> 'id QuizGame" where
  "handleFinishClick s = s\<lparr>showConfirmModal := True\<rparr>"

definition cancelFinish :: "'id QuizGame \<Rightarrow> 'id QuizGame" where
  "cancelFinish s = s\<lparr>showConfirmModal := False\<rparr>"

definition confirmFinish :: "'id QuizGame \<Rightarrow> 'id QuizGame" where
  "confirmFinish s = s\<lparr>emitted := emitted s @ [answers s]\<rparr>"

text \<open>
  A click on the button \<open>Beenden\<close> as the component renders it: the button exists only when
  there is a current question and it is the last one, and it is disabled unless all
  questions are answered. A click that finds no enabled button changes nothing.
\<close>

definition click_Beenden :: "'id QuizGame \<Rightarrow> 'id QuizGame" where
  "click_Beenden s =
     (if currentQuestion s \<noteq> None \<and> isLastQuestion s \<and> isAllAnswered s
      then handleFinishClick s else s)"

text \<open>
  One firing of the interval callback. Without an interval there is no callback. With one,
  the updater passed to \<open>setTimeLeft\<close> either counts down or, at \<open>prev <= 1\<close>, clears the
  interval, calls \<open>onFinish\<close> with the answers of its closure and returns 0.
\<close>

definition tick :: "'id QuizGame \<Rightarrow> 'id QuizGame" where
  "tick s =
     (case timer s of
        None \<Rightarrow> s
      | Some captured \<Rightarrow>
          if timeLeft s \<le> 1
          then s\<lparr>timeLeft := 0, timer := None, emitted := emitted s @ [captured]\<rparr>
          else s\<lparr>timeLeft := timeLeft s - 1\<rparr>)"

text \<open>
  The three states of a session read off the component: it is finished once \<open>onFinish\<close> has
  been called, and otherwise the modal decides.
\<close>

datatype phase = InProgress | ConfirmingFinish | Finished

definition phase :: "'id QuizGame \<Rightarrow> phase" where
  "phase s =
     (if emitted s \<noteq> [] then Finished
      else if showConfirmModal s then ConfirmingFinish else InProgress)"

text \<open>The states a mounted component can be in: every handler and the timer, from \<open>init\<close>.\<close>

inductive reachable :: "'id QuizGame \<Rightarrow> bool" where
  start: "reachable (init qs limit)"
| toggle: "reachable s \<Longrightarrow> handleOptionToggle option s = Some s' \<Longrightarrow> reachable s'"
| previous: "reachable s \<Longrightarrow> reachable (goPrevious s)"
| forward: "reachable s \<Longrightarrow> reachable (goNext s)"
| finish_click: "reachable s \<Longrightarrow> reachable (handleFinishClick s)"
| cancel: "reachable s \<Longrightarrow> reachable (cancelFinish s)"
| confirm: "reachable s \<Longrightarrow> reachable (confirmFinish s)"
| interval: "reachable s \<Longrightarrow> reachable (tick s)"

text \<open>Two stored questions for concrete sessions.\<close>

definition sample_mc :: "nat Question" where
  "sample_mc =
     \<lparr>question_text = ''Sitz'', question_type = multiple_choice,
      all_answers = [''A'', ''B'', ''C''], correct_answers = [''A'', ''B''],
      category = Label (''Trainerpr'' @ [CHR 0xFC] @ ''fung''), qid = 1\<rparr>"

definition sample_sc :: "nat Question" where
  "sample_sc =
     \<lparr>question_text = ''Platz'', question_type = single_choice,
      all_answers = [''A'', ''B''], correct_answers = [''B''],
      category = Label (''Trainerpr'' @ [CHR 0xFC] @ ''fung''), qid = 2\<rparr>"

text \<open>
  Two concrete sessions: one question, answered, with the dialog opened through the
  button; and two questions of which the first is answered.
\<close>

definition confirming :: "int \<Rightarrow> nat QuizGame" where
  "confirming limit = click_Beenden (the (handleOptionToggle ''B'' (init [sample_sc] limit)))"

definition one_answered :: "int \<Rightarrow> nat QuizGame" where
  "one_answered limit = the (handleOptionToggle ''A'' (init [sample_mc, sample_sc] limit))"

section \<open>Properties of the CSV import\<close>

subsection \<open>Splitting and scanning\<close>

lemma split_on_not_Nil: "split_on c s \<noteq> []"
  by (induction s) (auto split: list.splits)

lemma split_on_append: "split_on c (a @ c # b) = split_on c a @ split_on c b"
proof (induction a)
  case Nil
  show ?case by simp
next
  case (Cons x a)
  show ?case
  proof (cases "x = c")
    case True
    with Cons show ?thesis by simp
  next
    case False
    obtain p ps where "split_on c a = p # ps"
      using split_on_not_Nil [of c a] by (cases "split_on c a") auto
    with False Cons show ?thesis by simp
  qed
qed

lemma split_on_no_sep: "c \<notin> set l \<Longrightarrow> split_on c l = [l]"
  by (induction l) auto

lemma tl_split_on_append: "tl (split_on c a @ rest) = tl (split_on c a) @ rest"
  using split_on_not_Nil [of c a] by (cases "split_on c a") auto

lemma parse_lines_append: "parse_lines (xs @ ys) = parse_lines xs @ parse_lines ys"
  by (induction xs) (auto split: option.splits)

lemma set_trim: "set (trim s) \<subseteq> set s"
  by (auto simp: trim_def dest!: set_dropWhileD)

lemma set_strip_quotes: "set (strip_quotes s) \<subseteq> set s"
  by (cases s) (auto simp: strip_quotes_def Let_def dest: in_set_butlastD)

lemma set_unescape_quotes: "set (unescape_quotes s) \<subseteq> set s"
  by (induction s rule: unescape_quotes.induct) auto

lemma set_clean_field: "set (clean_field m) \<subseteq> set m"
  unfolding clean_field_def
  using set_trim set_strip_quotes set_unescape_quotes by (meson subset_trans)

text \<open>
  The scanner never appends a quote character to the buffer, so no scanned field holds one,
  and the two quote replacements of \<open>clean_field\<close> find nothing to replace.
\<close>

lemma scan_line_no_quote:
  "dquote \<notin> set buffer \<Longrightarrow> \<forall>m \<in> set matches. dquote \<notin> set m \<Longrightarrow>
   \<forall>m \<in> set (scan_line l inQuote buffer matches). dquote \<notin> set m"
  by (induction l inQuote buffer matches rule: scan_line.induct) auto

lemma line_values_no_quote: "v \<in> set (line_values l) \<Longrightarrow> dquote \<notin> set v"
proof -
  assume "v \<in> set (line_values l)"
  then obtain m where m: "m \<in> set (scan_line l False [] [])" and v: "v = clean_field m"
    by (auto simp: line_values_def)
  from m have "dquote \<notin> set m"
    using scan_line_no_quote [of "[]" "[]" l False] by simp
  with v show ?thesis
    using set_clean_field [of m] by auto
qed

lemma short_line_None: "length (line_values (trim l)) < 5 \<Longrightarrow> parse_line l = None"
  by (simp add: parse_line_def Let_def)

lemma questionsToInsert_Nil_iff:
  "questionsToInsert rows = [] \<longleftrightarrow> (\<forall>row \<in> set rows. \<not> keep (row_to_question row))"
  by (simp add: questionsToInsert_def filter_empty_conv)

lemma skippedCount_pos_iff:
  "skippedCount rows > 0 \<longleftrightarrow> (\<exists>row \<in> set rows. row_to_question row = None)"
  by (simp add: skippedCount_def filter_empty_conv)

text \<open>What the filter does guarantee for an accepted question.\<close>

lemma accepted_question:
  assumes "q \<in> set (questionsToInsert rows)"
  shows "question_text q \<noteq> [] \<and> length (all_answers q) \<ge> 1
    \<and> [] \<notin> set (all_answers q) \<and> [] \<notin> set (correct_answers q)"
proof -
  from assms obtain row where row: "row \<in> set rows" and k: "keep (row_to_question row)"
    and q: "q = the (row_to_question row)"
    by (auto simp: questionsToInsert_def)
  from k obtain q' where q': "row_to_question row = Some q'"
    by (cases "row_to_question row") auto
  with q k have "question_text q \<noteq> [] \<and> length (all_answers q) \<ge> 1"
    by (simp add: Suc_le_eq)
  moreover from q' q have "[] \<notin> set (all_answers q) \<and> [] \<notin> set (correct_answers q)"
    by (auto simp: row_to_question_def Let_def split_list_def split: if_splits)
  ultimately show ?thesis by simp
qed

subsection \<open>Claims about the import\<close>

text \<open>
  C1. Every accepted question has its correct answers among its answers, and at most one
  correct answer when it is single choice. The import never compares the two columns: on
  the file below it accepts a single-choice question whose two correct answers are both
  absent from its answers.
\<close>

theorem import_accepts_foreign_correct_answers:
  "ingest (''question,question_type,answers,correct_answers,category'' @ [newline]
           @ ''Sit,single choice,Sitz;Platz,Wuff;Miau,Koalatest'')
   = Inr (Imported
       [\<lparr>question_text = ''Sit'', question_type = single_choice,
         all_answers = [''Sitz'', ''Platz''], correct_answers = [''Wuff'', ''Miau''],
         category = Label (''Hundef'' @ [CHR 0xFC] @ ''hrerschein'')\<rparr>] 0)
   \<and> \<not> set [''Wuff'', ''Miau''] \<subseteq> set [''Sitz'', ''Platz'']
   \<and> \<not> length [''Wuff'', ''Miau''] \<le> 1"
  by code_simp

text \<open>
  C5. A doubled quote inside a field comes out of the parser as one quote character. The
  scanner drops every quote character before the field is cleaned, so the field
  \<open>"She said ""hi""."\<close> comes out without any quote.
\<close>

theorem doubled_quote_lost:
  "parseCSV (''question,question_type,answers,correct_answers,category'' @ [newline]
             @ [dquote] @ ''She said '' @ [dquote, dquote] @ ''hi'' @ [dquote, dquote]
             @ ''.'' @ [dquote] @ '',single choice,A;B,A,K'')
   = [\<lparr>csv_question = ''She said hi.'', csv_question_type = ''single choice'',
       csv_answers = ''A;B'', csv_correct_answers = ''A'', csv_category = ''K''\<rparr>]"
  by code_simp

text \<open>
  C6. Every accepted question has at least two answers. The filter of the import keeps a
  question with a single answer.
\<close>

theorem import_accepts_single_answer:
  "ingest (''question,question_type,answers,correct_answers,category'' @ [newline]
           @ ''Sit,single choice,Sitz,Sitz,Koalatest'')
   = Inr (Imported
       [\<lparr>question_text = ''Sit'', question_type = single_choice,
         all_answers = [''Sitz''], correct_answers = [''Sitz''],
         category = Label (''Hundef'' @ [CHR 0xFC] @ ''hrerschein'')\<rparr>] 0)
   \<and> length [''Sitz''] < (2::nat)"
  by code_simp

text \<open>
  C7, as the claim states it, fails on the empty text: the handler returns before it
  parses anything and throws nothing, although no question would have been accepted.
\<close>

theorem empty_text_not_an_error:
  "ingest [] = Inr NoText \<and> questionsToInsert (parseCSV []) = []"
  by code_simp

text \<open>
  C7, amended. For a non-empty text the import throws exactly when no question is
  accepted; the only error is the empty batch, its message is the one for skipped rows
  exactly when some parsed row had an invalid type, and otherwise the accepted questions
  and the skip count are handed on.
\<close>

theorem ingest_fails_iff_empty_batch:
  assumes "text \<noteq> []"
  shows "((\<exists>e. ingest text = Inl e) \<longleftrightarrow> questionsToInsert (parseCSV text) = [])
    \<and> (\<forall>msg. ingest text = Inl (EmptyBatchError msg) \<longrightarrow>
          msg = (if \<exists>row \<in> set (parseCSV text). row_to_question row = None
                 then ''All rows were skipped due to errors.''
                 else ''No valid questions found.''))
    \<and> (questionsToInsert (parseCSV text) \<noteq> [] \<longrightarrow>
          ingest text = Inr (Imported (questionsToInsert (parseCSV text))
                                      (skippedCount (parseCSV text))))"
  using assms skippedCount_pos_iff [of "parseCSV text"]
  by (auto simp: ingest_def Let_def)

theorem ingest_fails_iff_empty_batch_witness:
  "''question,question_type,answers,correct_answers,category'' @ [newline]
     @ ''Sit,essay,Sitz;Platz,Sitz,Koalatest'' \<noteq> []
   \<and> questionsToInsert (parseCSV
        (''question,question_type,answers,correct_answers,category'' @ [newline]
         @ ''Sit,essay,Sitz;Platz,Sitz,Koalatest'')) = []
   \<and> (\<exists>e. ingest (''question,question_type,answers,correct_answers,category'' @ [newline]
         @ ''Sit,essay,Sitz;Platz,Sitz,Koalatest'') = Inl e)"
proof -
  let ?t = "''question,question_type,answers,correct_answers,category'' @ [newline]
     @ ''Sit,essay,Sitz;Platz,Sitz,Koalatest''"
  have ne: "?t \<noteq> []" by simp
  have empty: "questionsToInsert (parseCSV ?t) = []" by code_simp
  from ingest_fails_iff_empty_batch [OF ne] empty have "\<exists>e. ingest ?t = Inl e"
    by blast
  with ne empty show ?thesis by blast
qed

text \<open>
  C8. A line with fewer than five fields is dropped silently: it yields no row, the parsed
  rows are those of the text without the line (whether the line is followed by another
  or is the last), and the outcome of the import, skip count included, is unchanged.
\<close>

theorem short_line_dropped:
  assumes "newline \<notin> set l" and "length (line_values (trim l)) < 5"
  shows "parse_line l = None
    \<and> parseCSV (a @ newline # l @ newline # b) = parseCSV (a @ newline # b)
    \<and> parseCSV (a @ newline # l) = parseCSV a
    \<and> skippedCount (parseCSV (a @ newline # l @ newline # b))
        = skippedCount (parseCSV (a @ newline # b))
    \<and> ingest (a @ newline # l @ newline # b) = ingest (a @ newline # b)"
proof -
  have none: "parse_line l = None"
    using assms(2) by (rule short_line_None)
  have l: "split_on newline l = [l]"
    using assms(1) by (rule split_on_no_sep)
  have "split_on newline (a @ newline # l @ newline # b)
      = split_on newline a @ [l] @ split_on newline b"
    using split_on_append [of newline a "l @ newline # b"] split_on_append [of newline l b] l
    by simp
  then have mid: "parseCSV (a @ newline # l @ newline # b) = parseCSV (a @ newline # b)"
    using none
    by (simp add: parseCSV_def tl_split_on_append parse_lines_append split_on_append)
  have "split_on newline (a @ newline # l) = split_on newline a @ [l]"
    using split_on_append [of newline a l] l by simp
  then have last: "parseCSV (a @ newline # l) = parseCSV a"
    using none by (simp add: parseCSV_def tl_split_on_append parse_lines_append)
  have "ingest (a @ newline # l @ newline # b) = ingest (a @ newline # b)"
    using mid by (simp add: ingest_def)
  with none mid last show ?thesis by simp
qed

theorem short_line_dropped_witness:
  "newline \<notin> set ''Platz,essay,Sitz''
   \<and> length (line_values (trim ''Platz,essay,Sitz'')) < 5
   \<and> ingest (''question,question_type,answers,correct_answers,category'' @ newline
        # ''Platz,essay,Sitz'' @ newline # ''Sit,single choice,Sitz;Platz,Sitz,Koalatest'')
     = ingest (''question,question_type,answers,correct_answers,category'' @ newline
        # ''Sit,single choice,Sitz;Platz,Sitz,Koalatest'')"
proof -
  have nl: "newline \<notin> set ''Platz,essay,Sitz''" by simp
  have short: "length (line_values (trim ''Platz,essay,Sitz'')) < 5" by code_simp
  from short_line_dropped [OF nl short] nl short show ?thesis by blast
qed

section \<open>Properties of the quiz session\<close>

subsection \<open>Handlers and the timer\<close>

lemma phase_simps:
  "phase s = InProgress \<longleftrightarrow> emitted s = [] \<and> \<not> showConfirmModal s"
  "phase s = ConfirmingFinish \<longleftrightarrow> emitted s = [] \<and> showConfirmModal s"
  "phase s = Finished \<longleftrightarrow> emitted s \<noteq> []"
  by (simp_all add: phase_def)

lemma isAllAnswered_iff:
  "isAllAnswered s \<longleftrightarrow> (\<forall>q \<in> set (questions s). selected s (qid q) \<noteq> [])"
  by (simp add: isAllAnswered_def list_all_iff)

lemma handleOptionToggle_Some:
  assumes "handleOptionToggle opt s = Some s'"
  obtains q new where "currentQuestion s = Some q"
    and "s' = s\<lparr>answers := (answers s)(qid q \<mapsto> new),
                 timer := timer_effect (timeLimit s) ((answers s)(qid q \<mapsto> new))\<rparr>"
proof (cases "currentQuestion s")
  case None
  with assms show ?thesis by (simp add: handleOptionToggle_def)
next
  case (Some q)
  let ?new = "if question_type q = single_choice then [opt]
              else if opt \<in> set (selected s (qid q))
                   then filter (\<lambda>item. item \<noteq> opt) (selected s (qid q))
                   else selected s (qid q) @ [opt]"
  from assms Some
  have "s' = s\<lparr>answers := (answers s)(qid q \<mapsto> ?new),
                 timer := timer_effect (timeLimit s) ((answers s)(qid q \<mapsto> ?new))\<rparr>"
    by (simp add: handleOptionToggle_def Let_def)
  with Some show ?thesis by (rule that)
qed

text \<open>
  While the component is mounted, an interval that is set always holds the current answers
  (each change of the answers replaces it), and with a positive limit the interval is set
  for as long as nothing has been emitted.
\<close>

lemma reachable_timer:
  "reachable s \<Longrightarrow>
     (timer s = None \<or> timer s = Some (answers s) \<and> 0 < timeLimit s)
     \<and> (emitted s = [] \<and> 0 < timeLimit s \<longrightarrow> timer s = Some (answers s))"
proof (induction rule: reachable.induct)
  case (start qs limit)
  show ?case by (simp add: init_def timer_effect_def)
next
  case (toggle s option s')
  from toggle.hyps(2) obtain q new where "currentQuestion s = Some q" and
    "s' = s\<lparr>answers := (answers s)(qid q \<mapsto> new),
            timer := timer_effect (timeLimit s) ((answers s)(qid q \<mapsto> new))\<rparr>"
    by (rule handleOptionToggle_Some)
  then have a: "answers s' = (answers s)(qid q \<mapsto> new)"
    and t: "timer s' = timer_effect (timeLimit s) ((answers s)(qid q \<mapsto> new))"
    and l: "timeLimit s' = timeLimit s"
    by simp_all
  have "timer s' = timer_effect (timeLimit s') (answers s')"
    unfolding a t l by (rule refl)
  then show ?case
    by (cases "timeLimit s' \<le> 0") (simp_all add: timer_effect_def)
next
  case (previous s)
  then show ?case by (simp add: goPrevious_def)
next
  case (forward s)
  then show ?case by (simp add: goNext_def)
next
  case (finish_click s)
  then show ?case by (simp add: handleFinishClick_def)
next
  case (cancel s)
  then show ?case by (simp add: cancelFinish_def)
next
  case (confirm s)
  then show ?case by (simp add: confirmFinish_def)
next
  case (interval s)
  then show ?case by (cases "timer s") (simp_all add: tick_def)
qed

lemma tick_handleFinishClick: "tick (handleFinishClick s) = handleFinishClick (tick s)"
  by (cases "timer s") (simp_all add: tick_def handleFinishClick_def)

lemma countdown_expires:
  "timer s = Some a \<Longrightarrow> 1 \<le> timeLeft s \<Longrightarrow>
   (tick ^^ nat (timeLeft s)) s = s\<lparr>timeLeft := 0, timer := None, emitted := emitted s @ [a]\<rparr>"
proof (induction "nat (timeLeft s)" arbitrary: s)
  case 0
  then show ?case by simp
next
  case (Suc n)
  show ?case
  proof (cases "timeLeft s = 1")
    case True
    with Suc.prems show ?thesis by (simp add: tick_def)
  next
    case False
    with Suc.prems have gt: "1 < timeLeft s" by simp
    then have t: "tick s = s\<lparr>timeLeft := timeLeft s - 1\<rparr>"
      using Suc.prems by (simp add: tick_def)
    have n: "n = nat (timeLeft (tick s))"
      using Suc.hyps(2) by (simp add: t)
    have "(tick ^^ nat (timeLeft (tick s))) (tick s)
        = (tick s)\<lparr>timeLeft := 0, timer := None, emitted := emitted (tick s) @ [a]\<rparr>"
      using n Suc.prems gt by (intro Suc.hyps(1)) (simp_all add: t)
    moreover have "nat (timeLeft s) = Suc (nat (timeLeft (tick s)))"
      using Suc.hyps(2) n by simp
    ultimately show ?thesis
      by (simp add: funpow_swap1 t)
  qed
qed

lemma countdown_from_init:
  assumes "0 < limit"
  shows "(tick ^^ nat limit) (init qs limit)
    = (init qs limit)\<lparr>timeLeft := 0, timer := None, emitted := [Map.empty]\<rparr>"
proof -
  have "timer (init qs limit) = Some Map.empty" and "1 \<le> timeLeft (init qs limit)"
    and "emitted (init qs limit) = []" and "timeLeft (init qs limit) = limit"
    using assms by (simp_all add: init_def timer_effect_def)
  with countdown_expires [of "init qs limit" Map.empty] show ?thesis by simp
qed

lemmas session_defs =
  init_def timer_effect_def currentQuestion_def isLastQuestion_def isAllAnswered_def
  selected_def handleOptionToggle_def handleFinishClick_def click_Beenden_def tick_def
  phase_def sample_mc_def sample_sc_def

lemma confirming_eq:
  "confirming limit =
     \<lparr>questions = [sample_sc], timeLimit = limit, currentIdx = 0,
      answers = [2 \<mapsto> [''B'']], showConfirmModal = True, timeLeft = limit,
      timer = timer_effect limit [2 \<mapsto> [''B'']], emitted = []\<rparr>"
  by (simp add: confirming_def session_defs Let_def)

lemma one_answered_eq:
  "one_answered limit =
     \<lparr>questions = [sample_mc, sample_sc], timeLimit = limit, currentIdx = 0,
      answers = [1 \<mapsto> [''A'']], showConfirmModal = False, timeLeft = limit,
      timer = timer_effect limit [1 \<mapsto> [''A'']], emitted = []\<rparr>"
  by (simp add: one_answered_def session_defs Let_def)

lemma reachable_confirming: "reachable (confirming limit)"
proof -
  have "handleOptionToggle ''B'' (init [sample_sc] limit)
      = Some (the (handleOptionToggle ''B'' (init [sample_sc] limit)))"
    by (simp add: session_defs Let_def)
  then have r: "reachable (the (handleOptionToggle ''B'' (init [sample_sc] limit)))"
    by (rule reachable.toggle [OF reachable.start])
  have "confirming limit
      = handleFinishClick (the (handleOptionToggle ''B'' (init [sample_sc] limit)))"
    by (simp add: confirming_def session_defs Let_def)
  with reachable.finish_click [OF r] show ?thesis by simp
qed

lemma reachable_one_answered: "reachable (one_answered limit)"
proof -
  have "handleOptionToggle ''A'' (init [sample_mc, sample_sc] limit)
      = Some (one_answered limit)"
    by (simp add: one_answered_def session_defs Let_def)
  then show ?thesis
    by (rule reachable.toggle [OF reachable.start])
qed

subsection \<open>Claims about the quiz session\<close>

text \<open>
  C2, as the claim states it, fails: with the confirmation dialog open the countdown goes
  on (5 becomes 4), and at one second left the timeout emits the answers although the
  dialog is open.
\<close>

theorem countdown_runs_while_confirming:
  "phase (confirming 5) = ConfirmingFinish
   \<and> timeLeft (confirming 5) = 5 \<and> timeLeft (tick (confirming 5)) = 4
   \<and> phase (confirming 1) = ConfirmingFinish
   \<and> emitted (confirming 1) = [] \<and> emitted (tick (confirming 1)) = [[2 \<mapsto> [''B'']]]"
  by (simp add: confirming_eq tick_def phase_def timer_effect_def)

text \<open>
  C2, amended. The countdown does not look at the confirmation dialog. In every reachable
  session: without a positive time limit a tick changes nothing; with a positive limit and
  the dialog open, a tick takes one second off while more than one is left, and otherwise
  sets the time to 0, clears the interval and emits the current answers; and opening the
  dialog before or after a tick gives the same session.
\<close>

theorem countdown_ignores_dialog:
  assumes "reachable s"
  shows "(timeLimit s \<le> 0 \<longrightarrow> tick s = s)
    \<and> (0 < timeLimit s \<and> phase s = ConfirmingFinish \<and> 1 < timeLeft s \<longrightarrow>
         tick s = s\<lparr>timeLeft := timeLeft s - 1\<rparr> \<and> phase (tick s) = ConfirmingFinish)
    \<and> (0 < timeLimit s \<and> phase s = ConfirmingFinish \<and> timeLeft s \<le> 1 \<longrightarrow>
         tick s = s\<lparr>timeLeft := 0, timer := None, emitted := [answers s]\<rparr>)
    \<and> tick (handleFinishClick s) = handleFinishClick (tick s)"
proof -
  from reachable_timer [OF assms]
  have some: "timer s = None \<or> 0 < timeLimit s"
    and run: "emitted s = [] \<and> 0 < timeLimit s \<Longrightarrow> timer s = Some (answers s)"
    by blast+
  have a: "timeLimit s \<le> 0 \<longrightarrow> tick s = s"
    using some by (cases "timer s") (simp_all add: tick_def)
  have e: "phase s = ConfirmingFinish \<Longrightarrow> emitted s = []"
    by (simp add: phase_simps)
  have b: "0 < timeLimit s \<and> phase s = ConfirmingFinish \<and> 1 < timeLeft s \<longrightarrow>
         tick s = s\<lparr>timeLeft := timeLeft s - 1\<rparr> \<and> phase (tick s) = ConfirmingFinish"
  proof (intro impI)
    assume h: "0 < timeLimit s \<and> phase s = ConfirmingFinish \<and> 1 < timeLeft s"
    with run e have "timer s = Some (answers s)" by blast
    with h show "tick s = s\<lparr>timeLeft := timeLeft s - 1\<rparr> \<and> phase (tick s) = ConfirmingFinish"
      by (simp add: tick_def phase_simps)
  qed
  have c: "0 < timeLimit s \<and> phase s = ConfirmingFinish \<and> timeLeft s \<le> 1 \<longrightarrow>
         tick s = s\<lparr>timeLeft := 0, timer := None, emitted := [answers s]\<rparr>"
  proof (intro impI)
    assume h: "0 < timeLimit s \<and> phase s = ConfirmingFinish \<and> timeLeft s \<le> 1"
    with run e have "timer s = Some (answers s)" and "emitted s = []" by blast+
    with h show "tick s = s\<lparr>timeLeft := 0, timer := None, emitted := [answers s]\<rparr>"
      by (simp add: tick_def)
  qed
  from a b c tick_handleFinishClick [of s] show ?thesis by blast
qed

theorem countdown_ignores_dialog_witness:
  "reachable (confirming 5) \<and> 0 < timeLimit (confirming 5)
   \<and> phase (confirming 5) = ConfirmingFinish \<and> 1 < timeLeft (confirming 5)
   \<and> timeLeft (tick (confirming 5)) = 4 \<and> phase (tick (confirming 5)) = ConfirmingFinish"
proof -
  have h: "0 < timeLimit (confirming 5) \<and> phase (confirming 5) = ConfirmingFinish
      \<and> 1 < timeLeft (confirming 5)"
    by (simp add: confirming_eq phase_def)
  with countdown_ignores_dialog [OF reachable_confirming, of 5]
  have t: "tick (confirming 5) = (confirming 5)\<lparr>timeLeft := timeLeft (confirming 5) - 1\<rparr>"
    and p: "phase (tick (confirming 5)) = ConfirmingFinish"
    by blast+
  have "timeLeft (tick (confirming 5)) = 4"
    unfolding t by (simp add: confirming_eq)
  with h p reachable_confirming [of 5] show ?thesis by blast
qed

text \<open>
  C3. The finish request is the click on \<open>Beenden\<close>. While the current question is not
  the last one, or while some question has an empty answer set, the click changes nothing,
  so a session in progress stays in progress and the dialog does not open. On the last
  question with every question answered the click runs \<open>handleFinishClick\<close>, which opens
  the dialog.
\<close>

theorem finish_button_guarded:
  "(\<not> isLastQuestion s \<or> (\<exists>q \<in> set (questions s). selected s (qid q) = [])
      \<longrightarrow> click_Beenden s = s \<and> phase (click_Beenden s) = phase s
          \<and> (phase s = InProgress \<longrightarrow> phase (click_Beenden s) = InProgress
                \<and> \<not> showConfirmModal (click_Beenden s)))
   \<and> (currentQuestion s \<noteq> None \<and> isLastQuestion s
        \<and> (\<forall>q \<in> set (questions s). selected s (qid q) \<noteq> [])
      \<longrightarrow> click_Beenden s = handleFinishClick s)
   \<and> showConfirmModal (handleFinishClick s)"
  by (auto simp: click_Beenden_def isAllAnswered_iff handleFinishClick_def phase_simps)

theorem finish_button_guarded_witness:
  "\<not> isLastQuestion (one_answered 0) \<and> phase (one_answered 0) = InProgress
   \<and> click_Beenden (one_answered 0) = one_answered 0
   \<and> phase (click_Beenden (one_answered 0)) = InProgress
   \<and> \<not> showConfirmModal (click_Beenden (one_answered 0))"
proof -
  have "\<not> isLastQuestion (one_answered 0)" and "phase (one_answered 0) = InProgress"
    by (simp_all add: one_answered_eq isLastQuestion_def phase_def)
  with finish_button_guarded [of "one_answered 0"] show ?thesis by blast
qed

text \<open>
  C4. In a reachable session with a positive time limit that is in progress when the last
  second runs out, the tick emits exactly the current answer map, whether or not all
  questions are answered; the session is then finished, the dialog was never opened, and
  the time left is 0.
\<close>

theorem timeout_auto_finish:
  assumes "reachable s" and "0 < timeLimit s" and "phase s = InProgress" and "timeLeft s \<le> 1"
  shows "emitted (tick s) = [answers s] \<and> phase (tick s) = Finished
    \<and> \<not> showConfirmModal (tick s) \<and> timeLeft (tick s) = 0 \<and> answers (tick s) = answers s"
proof -
  from assms(3) have e: "emitted s = []" and m: "\<not> showConfirmModal s"
    by (simp_all add: phase_simps)
  with reachable_timer [OF assms(1)] assms(2) have "timer s = Some (answers s)"
    by blast
  with assms(4) e m show ?thesis
    by (simp add: tick_def phase_simps)
qed

theorem timeout_auto_finish_witness:
  "reachable (one_answered 1) \<and> 0 < timeLimit (one_answered 1)
   \<and> phase (one_answered 1) = InProgress \<and> timeLeft (one_answered 1) \<le> 1
   \<and> \<not> isAllAnswered (one_answered 1)
   \<and> emitted (tick (one_answered 1)) = [[1 \<mapsto> [''A'']]]
   \<and> phase (tick (one_answered 1)) = Finished"
proof -
  have l: "0 < timeLimit (one_answered 1)" and p: "phase (one_answered 1) = InProgress"
    and t: "timeLeft (one_answered 1) \<le> 1" and n: "\<not> isAllAnswered (one_answered 1)"
    and a: "answers (one_answered 1) = [1 \<mapsto> [''A'']]"
    by (simp_all add: one_answered_eq phase_def isAllAnswered_def selected_def
        sample_mc_def sample_sc_def)
  from timeout_auto_finish [OF reachable_one_answered l p t] a
  have "emitted (tick (one_answered 1)) = [[1 \<mapsto> [''A'']]]
      \<and> phase (tick (one_answered 1)) = Finished"
    by simp
  with reachable_one_answered [of 1] l p t n show ?thesis by blast
qed

text \<open>
  C9. On a multiple-choice question, selecting the same option twice succeeds both times
  and gives back the answer set of that question: the same elements, the same list when
  the option was not selected before, and in particular the empty list from the empty
  list.
\<close>

theorem toggle_twice:
  assumes "currentQuestion s = Some q" and "question_type q = multiple_choice"
  shows "\<exists>s1 s2. handleOptionToggle opt s = Some s1 \<and> handleOptionToggle opt s1 = Some s2
    \<and> set (selected s2 (qid q)) = set (selected s (qid q))
    \<and> (opt \<notin> set (selected s (qid q)) \<longrightarrow> selected s2 (qid q) = selected s (qid q))
    \<and> (selected s (qid q) = [] \<longrightarrow> selected s2 (qid q) = [])"
proof -
  let ?sel = "selected s (qid q)"
  let ?new1 = "if opt \<in> set ?sel then filter (\<lambda>item. item \<noteq> opt) ?sel else ?sel @ [opt]"
  let ?s1 = "s\<lparr>answers := (answers s)(qid q \<mapsto> ?new1),
                timer := timer_effect (timeLimit s) ((answers s)(qid q \<mapsto> ?new1))\<rparr>"
  have 1: "handleOptionToggle opt s = Some ?s1"
    using assms by (simp add: handleOptionToggle_def Let_def)
  have cq: "currentQuestion ?s1 = Some q"
    using assms(1) by (simp add: currentQuestion_def split: if_splits)
  have sel1: "selected ?s1 (qid q) = ?new1"
    by (simp add: selected_def)
  let ?new2 = "if opt \<in> set ?new1 then filter (\<lambda>item. item \<noteq> opt) ?new1 else ?new1 @ [opt]"
  let ?s2 = "?s1\<lparr>answers := (answers ?s1)(qid q \<mapsto> ?new2),
                timer := timer_effect (timeLimit ?s1) ((answers ?s1)(qid q \<mapsto> ?new2))\<rparr>"
  have 2: "handleOptionToggle opt ?s1 = Some ?s2"
    using cq assms(2) sel1 by (simp add: handleOptionToggle_def Let_def)
  have sel2: "selected ?s2 (qid q) = ?new2"
    by (simp add: selected_def)
  have a: "set (selected ?s2 (qid q)) = set ?sel"
    unfolding sel2 by auto
  have b: "opt \<notin> set ?sel \<longrightarrow> selected ?s2 (qid q) = ?sel"
    unfolding sel2 by (auto simp: filter_id_conv)
  have c: "?sel = [] \<longrightarrow> selected ?s2 (qid q) = []"
    unfolding sel2 by simp
  show ?thesis
    by (rule exI [of _ ?s1], rule exI [of _ ?s2]) (intro conjI 1 2 a b c)
qed

theorem toggle_twice_witness:
  "currentQuestion (init [sample_mc, sample_sc] 0) = Some sample_mc
   \<and> question_type sample_mc = multiple_choice
   \<and> selected (init [sample_mc, sample_sc] 0) (qid sample_mc) = []
   \<and> (\<exists>s1 s2. handleOptionToggle ''A'' (init [sample_mc, sample_sc] 0) = Some s1
        \<and> handleOptionToggle ''A'' s1 = Some s2 \<and> selected s2 (qid sample_mc) = [])"
proof -
  have c: "currentQuestion (init [sample_mc, sample_sc] 0) = Some sample_mc"
    by (simp add: init_def currentQuestion_def)
  have m: "question_type sample_mc = multiple_choice"
    by (simp add: sample_mc_def)
  have e: "selected (init [sample_mc, sample_sc] 0) (qid sample_mc) = []"
    by (simp add: init_def selected_def)
  from toggle_twice [OF c m, of "''A''"] e c m show ?thesis by metis
qed

text \<open>
  C10. A successful selection changes the answer map at the id of the current question
  only: the entry of every other id, the questions, the current index, the dialog flag,
  the emitted answers, the time left and the limit are unchanged, and so is the state of
  the session.
\<close>

theorem toggle_frame:
  assumes "handleOptionToggle opt s = Some s'"
  shows "\<exists>q. currentQuestion s = Some q
    \<and> (\<forall>i. i \<noteq> qid q \<longrightarrow> answers s' i = answers s i)
    \<and> questions s' = questions s \<and> currentIdx s' = currentIdx s
    \<and> showConfirmModal s' = showConfirmModal s \<and> emitted s' = emitted s
    \<and> timeLeft s' = timeLeft s \<and> timeLimit s' = timeLimit s \<and> phase s' = phase s"
proof (cases "currentQuestion s")
  case None
  with assms show ?thesis by (simp add: handleOptionToggle_def)
next
  case (Some q)
  let ?new = "if question_type q = single_choice then [opt]
              else if opt \<in> set (selected s (qid q))
                   then filter (\<lambda>item. item \<noteq> opt) (selected s (qid q))
                   else selected s (qid q) @ [opt]"
  from assms Some
  have s': "s' = s\<lparr>answers := (answers s)(qid q \<mapsto> ?new),
                 timer := timer_effect (timeLimit s) ((answers s)(qid q \<mapsto> ?new))\<rparr>"
    by (simp add: handleOptionToggle_def Let_def)
  have "\<forall>i. i \<noteq> qid q \<longrightarrow> answers s' i = answers s i"
    unfolding s' by simp
  moreover have "questions s' = questions s \<and> currentIdx s' = currentIdx s
    \<and> showConfirmModal s' = showConfirmModal s \<and> emitted s' = emitted s
    \<and> timeLeft s' = timeLeft s \<and> timeLimit s' = timeLimit s \<and> phase s' = phase s"
    unfolding s' by (simp add: phase_def)
  ultimately show ?thesis using Some by blast
qed

theorem toggle_frame_witness:
  "handleOptionToggle ''A'' (init [sample_mc, sample_sc] 0) = Some (one_answered 0)
   \<and> answers (one_answered 0) 2 = answers (init [sample_mc, sample_sc] 0) 2
   \<and> currentIdx (one_answered 0) = currentIdx (init [sample_mc, sample_sc] 0)
   \<and> phase (one_answered 0) = phase (init [sample_mc, sample_sc] 0)"
proof -
  have h: "handleOptionToggle ''A'' (init [sample_mc, sample_sc] 0) = Some (one_answered 0)"
    by (simp add: one_answered_def session_defs Let_def)
  have c: "currentQuestion (init [sample_mc, sample_sc] 0) = Some sample_mc"
    by (simp add: init_def currentQuestion_def)
  have q: "(2::nat) \<noteq> qid sample_mc"
    by (simp add: sample_mc_def)
  from toggle_frame [OF h] c q h show ?thesis by auto
qed

end
